theory Spec2Isabelle
  imports Complex_Main
begin

section \<open>Data model\<close>

text \<open>
  The bot of \<^verbatim>\<open>src/index.js\<close> keeps two PostgreSQL tables, \<^verbatim>\<open>users\<close> and
  \<^verbatim>\<open>access_codes\<close>, and a static array \<^verbatim>\<open>lessons\<close> of ten entries. A row is a
  record of its columns; the surrogate \<^verbatim>\<open>id SERIAL\<close> columns and
  \<^verbatim>\<open>access_codes.created_at\<close> are never read or written by a handler and are left out.
  Each table is keyed by its \<^verbatim>\<open>UNIQUE NOT NULL\<close> column.
\<close>

type_synonym telegram_id = int

text \<open>A calendar date as \<^verbatim>\<open>today()\<close> produces it: the text \<^verbatim>\<open>YYYY-MM-DD\<close>.\<close>

type_synonym date = string

type_synonym timestamp = nat

record user =
  has_access :: bool
  current_lesson :: int
  last_lesson_date :: "date option"
  created_at :: timestamp
  updated_at :: timestamp

record access_code =
  is_used :: bool
  used_by_telegram_id :: "telegram_id option"
  used_at :: "timestamp option"

record tables =
  users :: "telegram_id \<rightharpoonup> user"
  access_codes :: "string \<rightharpoonup> access_code"

text \<open>
  The static array \<^verbatim>\<open>lessons\<close>: ten entries whose titles start with the words for
  "day 1" to "day 10". The texts, links and homework of an entry are static content; an
  entry is represented by the day number of its title.
\<close>

datatype lesson = Day nat

definition lessons :: "lesson list" where
  "lessons = [Day 1, Day 2, Day 3, Day 4, Day 5, Day 6, Day 7, Day 8, Day 9, Day 10]"

text \<open>
  JavaScript's \<^verbatim>\<open>xs[i]\<close>: \<^verbatim>\<open>undefined\<close> outside the array, here \<open>None\<close>.
\<close>

definition nth_js :: "'a list \<Rightarrow> int \<Rightarrow> 'a option" where
  "nth_js xs i = (if 0 \<le> i \<and> i < int (length xs) then Some (xs ! nat i) else None)"

section \<open>The store and its transactions\<close>

text \<open>
  The store as one database session sees it: the committed tables and, between
  \<^verbatim>\<open>BEGIN\<close> and \<^verbatim>\<open>COMMIT\<close>/\<^verbatim>\<open>ROLLBACK\<close>, the working copy of the open
  transaction. Statements read and write the working copy when there is one. All
  statements of the handlers are taken to reach this one session.
  \<^verbatim>\<open>BEGIN\<close> inside a transaction and \<^verbatim>\<open>COMMIT\<close> or \<^verbatim>\<open>ROLLBACK\<close> outside one
  only produce a warning in PostgreSQL and change nothing.
\<close>

record store =
  committed :: tables
  pending :: "tables option"

definition view :: "store \<Rightarrow> tables" where
  "view s = (case pending s of None \<Rightarrow> committed s | Some p \<Rightarrow> p)"

definition apply_write :: "(tables \<Rightarrow> tables) \<Rightarrow> store \<Rightarrow> store" where
  "apply_write f s =
     (case pending s of
        None \<Rightarrow> s\<lparr>committed := f (committed s)\<rparr>
      | Some p \<Rightarrow> s\<lparr>pending := Some (f p)\<rparr>)"

definition begin_txn :: "store \<Rightarrow> store" where
  "begin_txn s = (case pending s of None \<Rightarrow> s\<lparr>pending := Some (committed s)\<rparr> | Some p \<Rightarrow> s)"

definition commit_txn :: "store \<Rightarrow> store" where
  "commit_txn s = (case pending s of None \<Rightarrow> s | Some p \<Rightarrow> \<lparr>committed = p, pending = None\<rparr>)"

definition rollback_txn :: "store \<Rightarrow> store" where
  "rollback_txn s = s\<lparr>pending := None\<rparr>"

subsection \<open>The SQL statements that write\<close>

text \<open>
  \<^verbatim>\<open>UPDATE access_codes SET is_used = TRUE, used_by_telegram_id = $1, used_at = NOW()
  WHERE code = $2\<close>: no condition on \<^verbatim>\<open>is_used\<close>.
\<close>

definition mark_code_used :: "telegram_id \<Rightarrow> timestamp \<Rightarrow> string \<Rightarrow> tables \<Rightarrow> tables" where
  "mark_code_used tid t code T =
     (case access_codes T code of
        None \<Rightarrow> T
      | Some r \<Rightarrow>
          T\<lparr>access_codes := (access_codes T)
              (code \<mapsto> r\<lparr>is_used := True, used_by_telegram_id := Some tid, used_at := Some t\<rparr>)\<rparr>)"

text \<open>
  \<^verbatim>\<open>INSERT INTO users (telegram_id, has_access, current_lesson, last_lesson_date,
  created_at) VALUES ($1, TRUE, 1, $2, NOW()) ON CONFLICT (telegram_id) DO UPDATE SET
  has_access = TRUE\<close>. The column \<^verbatim>\<open>updated_at\<close> defaults to \<^verbatim>\<open>NOW()\<close> on insert and
  is set to \<^verbatim>\<open>NOW()\<close> by the trigger \<^verbatim>\<open>update_users_updated_at\<close> on every update.
\<close>

definition upsert_user :: "telegram_id \<Rightarrow> date \<Rightarrow> timestamp \<Rightarrow> tables \<Rightarrow> tables" where
  "upsert_user tid d t T =
     (case users T tid of
        None \<Rightarrow>
          T\<lparr>users := (users T)
              (tid \<mapsto> \<lparr>has_access = True, current_lesson = 1, last_lesson_date = Some d,
                       created_at = t, updated_at = t\<rparr>)\<rparr>
      | Some u \<Rightarrow>
          T\<lparr>users := (users T)(tid \<mapsto> u\<lparr>has_access := True, updated_at := t\<rparr>)\<rparr>)"

text \<open>
  \<^verbatim>\<open>UPDATE users SET current_lesson = $1, last_lesson_date = $2 WHERE telegram_id = $3\<close>;
  \<^verbatim>\<open>/start\<close> issues the same statement with the constant 1.
\<close>

definition update_progress :: "int \<Rightarrow> date \<Rightarrow> telegram_id \<Rightarrow> timestamp \<Rightarrow> tables \<Rightarrow> tables" where
  "update_progress n d tid t T =
     (case users T tid of
        None \<Rightarrow> T
      | Some u \<Rightarrow>
          T\<lparr>users := (users T)
              (tid \<mapsto> u\<lparr>current_lesson := n, last_lesson_date := Some d, updated_at := t\<rparr>)\<rparr>)"

section \<open>Environment, faults, requests and replies\<close>

text \<open>
  What a handler invocation takes from outside: the value of \<^verbatim>\<open>today()\<close>, the
  database clock \<^verbatim>\<open>NOW()\<close>, and \<open>iso_of\<close>, the text that
  \<^verbatim>\<open>d.toISOString().split('T')[0]\<close> gives for a stored \<^verbatim>\<open>DATE\<close> as the driver
  hands it back (the stored day when the server runs in UTC); and
  \<^verbatim>\<open>String.prototype.toUpperCase\<close> and \<^verbatim>\<open>String.prototype.trim\<close>, which are built
  into the JavaScript runtime and cover all of Unicode.
\<close>

record env =
  today :: date
  now :: timestamp
  iso_of :: "date \<Rightarrow> date"
  toUpperCase :: "string \<Rightarrow> string"
  trim :: "string \<Rightarrow> string"

text \<open>
  Every \<^verbatim>\<open>await pool.query(...)\<close> can throw. A fault plan says which statements do;
  a statement that throws has no effect on the store.
\<close>

datatype stmt =
    SelectCode | Begin | MarkCodeUsed | UpsertUser | Commit | Rollback
  | SelectAccess | ResetProgress | SelectUser | UpdateProgress

type_synonym faults = "stmt \<Rightarrow> bool"

definition no_faults :: faults where
  "no_faults = (\<lambda>q. False)"

text \<open>The fields of the Telegraf context that the handlers read.\<close>

record ctx =
  from_id :: telegram_id
  from_username :: "string option"
  from_first_name :: string
  message_text :: string

text \<open>
  The replies, one constructor per message of the source:
  \<^item> \<open>CodeMissing\<close>: "please give an access code", \<open>CodeNotFound\<close>: "access code not
    found", \<open>CodeAlreadyUsed\<close>: "this code was already used", \<open>Activated\<close>: "access code
    activated";
  \<^item> \<open>AccessDenied\<close>: "to access the bot activate an access code first";
  \<^item> \<open>NoSuchUser\<close>: "write /start first";
  \<^item> \<open>TooSoon\<close>: "the next lesson will be available tomorrow", sent only by the
    commented-out block of the "continue" handler;
  \<^item> \<open>CourseComplete\<close>: "the course is finished";
  \<^item> \<open>Welcome name l\<close>: the greeting of \<^verbatim>\<open>/start\<close> followed by lesson \<open>l\<close>;
    \<open>LessonMsg l\<close>: lesson \<open>l\<close>;
  \<^item> \<open>Status n total percent date\<close>: the progress report;
  \<^item> \<open>ErrorReply\<close>: "an error occurred", sent by each handler's \<^verbatim>\<open>catch\<close> (with
    "try again later" in all but \<^verbatim>\<open>/status\<close>).
  Sending a reply is taken to succeed.
\<close>

datatype reply =
    CodeMissing | CodeNotFound | CodeAlreadyUsed | Activated
  | AccessDenied | NoSuchUser | TooSoon | CourseComplete
  | Welcome string lesson | LessonMsg lesson
  | Status int nat int "date option"
  | ErrorReply

section \<open>Strings\<close>

text \<open>
  A text is the list of the bytes of its UTF-8 encoding: every ASCII character is one
  \<open>char\<close>, and no other character contains the byte of an ASCII character.

  \<^verbatim>\<open>text.split(' ')\<close>: the pieces between single spaces; never an empty array.
\<close>

fun split_space :: "string \<Rightarrow> string list" where
  "split_space [] = [[]]"
| "split_space (ch # cs) =
     (if ch = CHR '' '' then [] # split_space cs
      else (case split_space cs of [] \<Rightarrow> [[ch]] | w # ws \<Rightarrow> (ch # w) # ws))"

text \<open>
  \<^verbatim>\<open>ctx.message.text.split(' ')[1]?.toUpperCase().trim()\<close>: \<open>None\<close> is
  \<^verbatim>\<open>undefined\<close>.
\<close>

definition code_arg :: "env \<Rightarrow> string \<Rightarrow> string option" where
  "code_arg e txt =
     map_option (\<lambda>tok. trim e (toUpperCase e tok)) (nth_js (split_space txt) 1)"

text \<open>
  What the two built-ins do to a text all of whose characters are ASCII: the letters a
  to z are raised, and the white space of ASCII (tab, line feed, vertical tab, form feed,
  carriage return, space) is dropped at both ends. \<open>js_on_ascii e\<close> says that the
  built-ins of the environment \<open>e\<close> do this; nothing is said of them on other texts.
\<close>

definition ascii_text :: "string \<Rightarrow> bool" where
  "ascii_text w = list_all (\<lambda>ch. (of_char ch :: nat) < 128) w"

definition upper_char :: "char \<Rightarrow> char" where
  "upper_char ch =
     (let n = (of_char ch :: nat) in if 97 \<le> n \<and> n \<le> 122 then char_of (n - 32) else ch)"

definition ascii_toUpperCase :: "string \<Rightarrow> string" where
  "ascii_toUpperCase = map upper_char"

definition is_space :: "char \<Rightarrow> bool" where
  "is_space ch = (let n = (of_char ch :: nat) in (9 \<le> n \<and> n \<le> 13) \<or> n = 32)"

definition ascii_trim :: "string \<Rightarrow> string" where
  "ascii_trim cs = rev (dropWhile is_space (rev (dropWhile is_space cs)))"

definition js_on_ascii :: "env \<Rightarrow> bool" where
  "js_on_ascii e =
     (\<forall>w. ascii_text w \<longrightarrow> toUpperCase e w = ascii_toUpperCase w \<and> trim e w = ascii_trim w)"

text \<open>\<^verbatim>\<open>ctx.from.username || ctx.from.first_name\<close>.\<close>

definition display_name :: "ctx \<Rightarrow> string" where
  "display_name c =
     (case from_username c of
        None \<Rightarrow> from_first_name c
      | Some n \<Rightarrow> if n = [] then from_first_name c else n)"

section \<open>The handlers\<close>

subsection \<open>\<^verbatim>\<open>/activate\<close>\<close>

text \<open>
  The inner \<^verbatim>\<open>catch\<close>: \<^verbatim>\<open>ROLLBACK\<close>, then rethrow to the outer \<^verbatim>\<open>catch\<close>, which
  replies with the error message. When \<^verbatim>\<open>ROLLBACK\<close> itself throws, the outer
  \<^verbatim>\<open>catch\<close> replies the same.
\<close>

definition rollback_and_fail :: "faults \<Rightarrow> store \<Rightarrow> reply \<times> store" where
  "rollback_and_fail fails s = (ErrorReply, if fails Rollback then s else rollback_txn s)"

text \<open>The inner \<^verbatim>\<open>try\<close> block, entered after \<^verbatim>\<open>BEGIN\<close>.\<close>

definition activate_txn :: "env \<Rightarrow> faults \<Rightarrow> telegram_id \<Rightarrow> string \<Rightarrow> store \<Rightarrow> reply \<times> store" where
  "activate_txn e fails telegramId code s1 =
     (if fails MarkCodeUsed then rollback_and_fail fails s1
      else
        let s2 = apply_write (mark_code_used telegramId (now e) code) s1 in
        if fails UpsertUser then rollback_and_fail fails s2
        else
          let s3 = apply_write (upsert_user telegramId (today e) (now e)) s2 in
          if fails Commit then rollback_and_fail fails s3
          else (Activated, commit_txn s3))"

definition activate :: "env \<Rightarrow> faults \<Rightarrow> ctx \<Rightarrow> store \<Rightarrow> reply \<times> store" where
  "activate e fails c s =
     (case code_arg e (message_text c) of
        None \<Rightarrow> (CodeMissing, s)
      | Some code \<Rightarrow>
          if code = [] then (CodeMissing, s)
          else if fails SelectCode then (ErrorReply, s)
          else
            (case access_codes (view s) code of
               None \<Rightarrow> (CodeNotFound, s)
             | Some accessCode \<Rightarrow>
                 if is_used accessCode then (CodeAlreadyUsed, s)
                 else if fails Begin then (ErrorReply, s)
                 else activate_txn e fails (from_id c) code (begin_txn s)))"

subsection \<open>\<^verbatim>\<open>/start\<close>\<close>

definition start :: "env \<Rightarrow> faults \<Rightarrow> ctx \<Rightarrow> store \<Rightarrow> reply \<times> store" where
  "start e fails c s =
     (if fails SelectAccess then (ErrorReply, s)
      else
        (case users (view s) (from_id c) of
           None \<Rightarrow> (AccessDenied, s)
         | Some u \<Rightarrow>
             if \<not> has_access u then (AccessDenied, s)
             else if fails ResetProgress then (ErrorReply, s)
             else
               let s' = apply_write (update_progress 1 (today e) (from_id c) (now e)) s in
               (case nth_js lessons 0 of
                  None \<Rightarrow> (ErrorReply, s')
                | Some l \<Rightarrow> (Welcome (display_name c) l, s'))))"

subsection \<open>The "continue" button\<close>

text \<open>
  The handler registered with \<^verbatim>\<open>bot.hears\<close> for the button has no name in the source;
  it is called \<open>advance\<close> here, after the operation it implements.

  The choice of the next lesson, after the two completion checks. The block that
  compared \<^verbatim>\<open>last_lesson_date\<close> with today and replied "tomorrow" is commented out in
  the source and has no counterpart here; the comparison survives only in the condition
  of the first branch.
\<close>

definition next_lesson_number :: "env \<Rightarrow> user \<Rightarrow> int" where
  "next_lesson_number e u =
     (if current_lesson u = 1 \<and>
         (case last_lesson_date u of None \<Rightarrow> True | Some d \<Rightarrow> iso_of e d \<noteq> today e)
      then 2
      else if current_lesson u < int (length lessons) then current_lesson u + 1
      else current_lesson u)"

definition advance :: "env \<Rightarrow> faults \<Rightarrow> ctx \<Rightarrow> store \<Rightarrow> reply \<times> store" where
  "advance e fails c s =
     (if fails SelectUser then (ErrorReply, s)
      else
        (case users (view s) (from_id c) of
           None \<Rightarrow> (NoSuchUser, s)
         | Some u \<Rightarrow>
             if \<not> has_access u then (AccessDenied, s)
             else if current_lesson u > int (length lessons) then (CourseComplete, s)
             else if current_lesson u = int (length lessons) then
               (if fails UpdateProgress then (ErrorReply, s)
                else
                  (CourseComplete,
                   apply_write (update_progress (int (length lessons) + 1) (today e) (from_id c) (now e)) s))
             else
               let nextLessonNumber = next_lesson_number e u in
               if fails UpdateProgress then (ErrorReply, s)
               else
                 let s' = apply_write (update_progress nextLessonNumber (today e) (from_id c) (now e)) s in
                 (case nth_js lessons (nextLessonNumber - 1) of
                    None \<Rightarrow> (ErrorReply, s')
                  | Some l \<Rightarrow> (LessonMsg l, s'))))"

subsection \<open>\<^verbatim>\<open>/status\<close>\<close>

text \<open>
  \<^verbatim>\<open>Math.round\<close> rounds to the nearest integer, a half upwards. The quotient is
  computed here in exact rational arithmetic; the source computes it in double precision,
  whose error on the value of an \<^verbatim>\<open>INTEGER\<close> column is far below one half.
\<close>

definition js_round :: "rat \<Rightarrow> int" where
  "js_round x = \<lfloor>x + 1 / 2\<rfloor>"

definition progress :: "user \<Rightarrow> int" where
  "progress u = js_round ((of_int (current_lesson u) / of_nat (length lessons)) * 100)"

definition status :: "env \<Rightarrow> faults \<Rightarrow> ctx \<Rightarrow> store \<Rightarrow> reply \<times> store" where
  "status e fails c s =
     (if fails SelectUser then (ErrorReply, s)
      else
        (case users (view s) (from_id c) of
           None \<Rightarrow> (NoSuchUser, s)
         | Some u \<Rightarrow>
             (Status (current_lesson u) (length lessons) (progress u)
                (map_option (iso_of e) (last_lesson_date u)), s)))"

subsection \<open>Dispatch\<close>

text \<open>The four entry points that the bot registers with the transport.\<close>

datatype command = Activate | Start | Continue | GetStatus

fun handle :: "env \<Rightarrow> faults \<Rightarrow> command \<Rightarrow> ctx \<Rightarrow> store \<Rightarrow> reply \<times> store" where
  "handle e fails Activate c s = activate e fails c s"
| "handle e fails Start c s = start e fails c s"
| "handle e fails Continue c s = advance e fails c s"
| "handle e fails GetStatus c s = status e fails c s"

section \<open>Interleaved redemptions\<close>

text \<open>
  The webhook endpoint calls \<^verbatim>\<open>bot.handleUpdate\<close> without awaiting it, so several
  invocations can be under way at once. A handler is an \<^verbatim>\<open>async\<close> function: it runs
  without interruption up to its next \<^verbatim>\<open>await\<close>, and other invocations run while it
  waits. For \<^verbatim>\<open>/activate\<close> the
  points of suspension are its statements, so an invocation is a small machine whose
  step issues one statement and runs on to the next \<^verbatim>\<open>await\<close>. Its program counter
  remembers the local variable \<^verbatim>\<open>code\<close> as long as a later statement uses it.
\<close>

datatype activate_pc =
    AtSelect
  | AtBegin string
  | AtMark string
  | AtUpsert
  | AtCommit
  | AtRollback
  | Finished reply

fun activate_step :: "env \<Rightarrow> faults \<Rightarrow> ctx \<Rightarrow> activate_pc \<Rightarrow> store \<Rightarrow> activate_pc \<times> store" where
  "activate_step e fails c AtSelect s =
     (case code_arg e (message_text c) of
        None \<Rightarrow> (Finished CodeMissing, s)
      | Some code \<Rightarrow>
          if code = [] then (Finished CodeMissing, s)
          else if fails SelectCode then (Finished ErrorReply, s)
          else
            (case access_codes (view s) code of
               None \<Rightarrow> (Finished CodeNotFound, s)
             | Some accessCode \<Rightarrow>
                 if is_used accessCode then (Finished CodeAlreadyUsed, s)
                 else (AtBegin code, s)))"
| "activate_step e fails c (AtBegin code) s =
     (if fails Begin then (Finished ErrorReply, s) else (AtMark code, begin_txn s))"
| "activate_step e fails c (AtMark code) s =
     (if fails MarkCodeUsed then (AtRollback, s)
      else (AtUpsert, apply_write (mark_code_used (from_id c) (now e) code) s))"
| "activate_step e fails c AtUpsert s =
     (if fails UpsertUser then (AtRollback, s)
      else (AtCommit, apply_write (upsert_user (from_id c) (today e) (now e)) s))"
| "activate_step e fails c AtCommit s =
     (if fails Commit then (AtRollback, s) else (Finished Activated, commit_txn s))"
| "activate_step e fails c AtRollback s =
     (Finished ErrorReply, if fails Rollback then s else rollback_txn s)"
| "activate_step e fails c (Finished r) s = (Finished r, s)"

text \<open>
  Several invocations against one store. The schedule names, step by step, the
  invocation whose pending statement the store answers next.
\<close>

type_synonym proc = "ctx \<times> activate_pc"

fun run_schedule :: "env \<Rightarrow> faults \<Rightarrow> nat list \<Rightarrow> proc list \<Rightarrow> store \<Rightarrow> proc list \<times> store" where
  "run_schedule e fails [] ps s = (ps, s)"
| "run_schedule e fails (i # sched) ps s =
     (if i < length ps then
        (case activate_step e fails (fst (ps ! i)) (snd (ps ! i)) s of
           (pc', s') \<Rightarrow> run_schedule e fails sched (ps[i := (fst (ps ! i), pc')]) s')
      else run_schedule e fails sched ps s)"

text \<open>One invocation on its own: at most six steps take it to its reply.\<close>

definition activate_alone :: "env \<Rightarrow> faults \<Rightarrow> ctx \<Rightarrow> store \<Rightarrow> proc list \<times> store" where
  "activate_alone e fails c s = run_schedule e fails [0, 0, 0, 0, 0, 0] [(c, AtSelect)] s"

text \<open>
  The same scheduler for any kind of invocation, given by its step. An invocation carries
  whatever its step needs.
\<close>

fun interleave :: "('p \<Rightarrow> store \<Rightarrow> 'p \<times> store) \<Rightarrow> nat list \<Rightarrow> 'p list \<Rightarrow> store \<Rightarrow> 'p list \<times> store" where
  "interleave step [] ps s = (ps, s)"
| "interleave step (i # sched) ps s =
     (if i < length ps then
        (case step (ps ! i) s of (p', s') \<Rightarrow> interleave step sched (ps[i := p']) s')
      else interleave step sched ps s)"

text \<open>An invocation of \<^verbatim>\<open>/activate\<close> with a fault plan of its own.\<close>

type_synonym redeem_proc = "faults \<times> ctx \<times> activate_pc"

definition redeem_step :: "env \<Rightarrow> redeem_proc \<Rightarrow> store \<Rightarrow> redeem_proc \<times> store" where
  "redeem_step e p s =
     (case p of (fails, c, pc) \<Rightarrow>
        (case activate_step e fails c pc s of (pc', s') \<Rightarrow> ((fails, c, pc'), s')))"

section \<open>Interleaved presses of the "continue" button\<close>

text \<open>
  The "continue" handler awaits twice: the \<^verbatim>\<open>SELECT\<close> of the user's row and the
  \<^verbatim>\<open>UPDATE\<close> of the progress. Between the two it holds the lesson number it computed
  from the row it read, and the reply that follows from that number.
\<close>

datatype advance_pc =
    AtSelectUser
  | AtUpdate int reply
  | Replied reply

fun advance_step :: "env \<Rightarrow> faults \<Rightarrow> ctx \<Rightarrow> advance_pc \<Rightarrow> store \<Rightarrow> advance_pc \<times> store" where
  "advance_step e fails c AtSelectUser s =
     (if fails SelectUser then (Replied ErrorReply, s)
      else
        (case users (view s) (from_id c) of
           None \<Rightarrow> (Replied NoSuchUser, s)
         | Some u \<Rightarrow>
             if \<not> has_access u then (Replied AccessDenied, s)
             else if current_lesson u > int (length lessons) then (Replied CourseComplete, s)
             else if current_lesson u = int (length lessons) then
               (AtUpdate (int (length lessons) + 1) CourseComplete, s)
             else
               let nextLessonNumber = next_lesson_number e u in
               (AtUpdate nextLessonNumber
                  (case nth_js lessons (nextLessonNumber - 1) of
                     None \<Rightarrow> ErrorReply
                   | Some l \<Rightarrow> LessonMsg l), s)))"
| "advance_step e fails c (AtUpdate n r) s =
     (if fails UpdateProgress then (Replied ErrorReply, s)
      else (Replied r, apply_write (update_progress n (today e) (from_id c) (now e)) s))"
| "advance_step e fails c (Replied r) s = (Replied r, s)"

type_synonym press_proc = "ctx \<times> advance_pc"

definition press_step :: "env \<Rightarrow> faults \<Rightarrow> press_proc \<Rightarrow> store \<Rightarrow> press_proc \<times> store" where
  "press_step e fails p s =
     (case p of (c, pc) \<Rightarrow> (case advance_step e fails c pc s of (pc', s') \<Rightarrow> ((c, pc'), s')))"

section \<open>Invocations one after another\<close>

text \<open>
  A run in which every invocation comes to its reply before the next one starts. Each
  invocation has its environment, its fault plan, its entry point and its request.
\<close>

type_synonym invocation = "env \<times> faults \<times> command \<times> ctx"

fun run_invocations :: "invocation list \<Rightarrow> store \<Rightarrow> store" where
  "run_invocations [] s = s"
| "run_invocations ((e, fails, cmd, c) # rest) s =
     run_invocations rest (snd (handle e fails cmd c s))"

definition rollback_fails :: "invocation \<Rightarrow> bool" where
  "rollback_fails i = (case i of (e, fails, cmd, c) \<Rightarrow> fails Rollback)"

definition restarts :: "telegram_id \<Rightarrow> invocation \<Rightarrow> bool" where
  "restarts t i = (case i of (e, fails, cmd, c) \<Rightarrow> cmd = Start \<and> from_id c = t)"

section \<open>The rules in the words of the specification\<close>

text \<open>
  The next lesson index as the specification words it: 2 after lesson 1, otherwise the
  current lesson plus one.
\<close>

definition spec_next_index :: "int \<Rightarrow> int" where
  "spec_next_index cl = (if cl = 1 then 2 else cl + 1)"

text \<open>The percentage as the specification words it: \<open>round (100 * current_lesson / N)\<close>.\<close>

definition spec_percent :: "int \<Rightarrow> nat \<Rightarrow> int" where
  "spec_percent cl n = js_round (100 * of_int cl / of_nat n)"

section \<open>Concrete stores and requests\<close>

text \<open>
  An environment for messages of ASCII characters: the server runs in UTC, and the two
  string built-ins are given by what they do to ASCII text.
\<close>

definition scenario_env :: env where
  "scenario_env =
     \<lparr>today = ''2025-01-15'', now = 1000, iso_of = (\<lambda>d. d),
      toUpperCase = ascii_toUpperCase, trim = ascii_trim\<rparr>"

text \<open>A store that holds the unredeemed code \<^verbatim>\<open>PON-ABCD1234\<close> and no user.\<close>

definition scenario_store :: store where
  "scenario_store =
     \<lparr>committed =
        \<lparr>users = Map.empty,
         access_codes =
           [''PON-ABCD1234'' \<mapsto> \<lparr>is_used = False, used_by_telegram_id = None, used_at = None\<rparr>]\<rparr>,
      pending = None\<rparr>"

text \<open>The same store after user 5 has redeemed the code.\<close>

definition used_store :: store where
  "used_store =
     \<lparr>committed =
        \<lparr>users = Map.empty,
         access_codes =
           [''PON-ABCD1234'' \<mapsto> \<lparr>is_used = True, used_by_telegram_id = Some 5, used_at = Some 900\<rparr>]\<rparr>,
      pending = None\<rparr>"

text \<open>A store with one user, given by access flag, lesson and date of the last lesson.\<close>

definition student :: "bool \<Rightarrow> int \<Rightarrow> date option \<Rightarrow> user" where
  "student a n d =
     \<lparr>has_access = a, current_lesson = n, last_lesson_date = d, created_at = 0, updated_at = 0\<rparr>"

definition student_store :: "telegram_id \<Rightarrow> user \<Rightarrow> store" where
  "student_store tid u =
     \<lparr>committed = \<lparr>users = [tid \<mapsto> u], access_codes = Map.empty\<rparr>, pending = None\<rparr>"

definition request :: "telegram_id \<Rightarrow> string \<Rightarrow> ctx" where
  "request tid txt =
     \<lparr>from_id = tid, from_username = None, from_first_name = ''user'', message_text = txt\<rparr>"

text \<open>A store with two unredeemed codes and no user.\<close>

definition two_codes_store :: store where
  "two_codes_store =
     \<lparr>committed =
        \<lparr>users = Map.empty,
         access_codes =
           [''PON-ABCD1234'' \<mapsto> \<lparr>is_used = False, used_by_telegram_id = None, used_at = None\<rparr>,
            ''PON-EFGH5678'' \<mapsto> \<lparr>is_used = False, used_by_telegram_id = None, used_at = None\<rparr>]\<rparr>,
      pending = None\<rparr>"

text \<open>A store with one user and the same two unredeemed codes.\<close>

definition student_codes_store :: "telegram_id \<Rightarrow> user \<Rightarrow> store" where
  "student_codes_store tid u =
     \<lparr>committed =
        \<lparr>users = [tid \<mapsto> u],
         access_codes =
           [''PON-ABCD1234'' \<mapsto> \<lparr>is_used = False, used_by_telegram_id = None, used_at = None\<rparr>,
            ''PON-EFGH5678'' \<mapsto> \<lparr>is_used = False, used_by_telegram_id = None, used_at = None\<rparr>]\<rparr>,
      pending = None\<rparr>"

text \<open>The fault plan under which the upsert of the user throws and nothing else does.\<close>

definition upsert_fails :: faults where
  "upsert_fails = (\<lambda>q. q = UpsertUser)"

text \<open>The fault plan under which the upsert and the \<^verbatim>\<open>ROLLBACK\<close> after it throw.\<close>

definition upsert_and_rollback_fail :: faults where
  "upsert_and_rollback_fail = (\<lambda>q. q = UpsertUser \<or> q = Rollback)"


text \<open>
  Three presses of the button by user 7, who is at lesson 5, under a given schedule.
\<close>

definition three_presses :: "nat list \<Rightarrow> press_proc list \<times> store" where
  "three_presses sched =
     interleave (press_step scenario_env no_faults) sched
       [(request 7 ''go'', AtSelectUser), (request 7 ''go'', AtSelectUser),
        (request 7 ''go'', AtSelectUser)]
       (student_store 7 (student True 5 None))"

text \<open>
  User 7, at lesson 5, redeems a code; the upsert and the \<^verbatim>\<open>ROLLBACK\<close> throw. Then
  the user presses the button.
\<close>

definition after_failed_rollback :: "invocation list" where
  "after_failed_rollback =
     [(scenario_env, upsert_and_rollback_fail, Activate, request 7 ''/activate PON-ABCD1234''),
      (scenario_env, no_faults, Continue, request 7 ''go'')]"

text \<open>
  Two invocations of \<^verbatim>\<open>/activate PON-ABCD1234\<close>, by users 1 and 2. Both run their
  \<^verbatim>\<open>SELECT\<close> before either runs its \<^verbatim>\<open>UPDATE\<close>; then the first runs to its reply,
  then the second. Their transactions do not overlap.
\<close>

definition racing_redeems :: "proc list \<times> store" where
  "racing_redeems =
     run_schedule scenario_env no_faults [0, 1, 0, 0, 0, 0, 1, 1, 1, 1]
       [(request 1 ''/activate PON-ABCD1234'', AtSelect),
        (request 2 ''/activate PON-ABCD1234'', AtSelect)]
       scenario_store"


section \<open>Basic facts\<close>

lemma length_lessons: "length lessons = 10"
  by (simp add: lessons_def)

lemma nth_js_lessons:
  assumes "1 \<le> k" and "k \<le> 10"
  shows "nth_js lessons (k - 1) = Some (Day (nat k))"
proof -
  from assms have "k = 1 \<or> k = 2 \<or> k = 3 \<or> k = 4 \<or> k = 5 \<or> k = 6 \<or> k = 7 \<or> k = 8 \<or> k = 9 \<or> k = 10"
    by arith
  then show ?thesis
    by (elim disjE) (simp_all add: nth_js_def lessons_def)
qed

lemma nth_js_lessons_first: "nth_js lessons 0 = Some (Day 1)"
  by (simp add: nth_js_def lessons_def)

lemma js_round_of_int: "js_round (of_int z) = z"
  unfolding js_round_def by (rule floor_unique) simp_all

lemma js_round_half_up: "js_round (5 / 2) = 3" and "js_round (- 5 / 2) = - 2"
  unfolding js_round_def by (rule floor_unique; simp)+

lemma progress_eq: "progress u = 10 * current_lesson u"
proof -
  have "(of_int (current_lesson u) / of_nat (length lessons)) * (100::rat) = of_int (10 * current_lesson u)"
    by (simp add: length_lessons)
  then show ?thesis
    unfolding progress_def by (simp only: js_round_of_int)
qed

lemma spec_percent_eq: "spec_percent cl (length lessons) = 10 * cl"
proof -
  have "100 * of_int cl / of_nat (length lessons) = (of_int (10 * cl) :: rat)"
    by (simp add: length_lessons)
  then show ?thesis
    unfolding spec_percent_def by (simp only: js_round_of_int)
qed

lemma view_apply_write: "view (apply_write f s) = f (view s)"
  by (simp add: view_def apply_write_def split: option.splits)

lemma users_update_progress:
  "users (update_progress n d tid t T) k =
     (if k = tid
      then map_option (\<lambda>u. u\<lparr>current_lesson := n, last_lesson_date := Some d, updated_at := t\<rparr>)
             (users T tid)
      else users T k)"
  by (simp add: update_progress_def split: option.splits)

lemma users_upsert_user:
  "users (upsert_user tid d t T) k =
     (if k = tid then
        Some (case users T tid of
                None \<Rightarrow> \<lparr>has_access = True, current_lesson = 1, last_lesson_date = Some d,
                         created_at = t, updated_at = t\<rparr>
              | Some u \<Rightarrow> u\<lparr>has_access := True, updated_at := t\<rparr>)
      else users T k)"
  by (simp add: upsert_user_def split: option.splits)

lemma users_mark_code_used: "users (mark_code_used tid t code T) = users T"
  by (simp add: mark_code_used_def split: option.splits)

lemma update_progress_twice:
  "update_progress n' d' tid t' (update_progress n d tid t T) = update_progress n' d' tid t' T"
  by (simp add: update_progress_def split: option.splits)

lemma apply_write_twice: "apply_write g (apply_write f s) = apply_write (g \<circ> f) s"
  by (simp add: apply_write_def split: option.splits)

section \<open>Properties of the "continue" button\<close>

lemma next_lesson_number_eq:
  "current_lesson u < int (length lessons) \<Longrightarrow> next_lesson_number e u = current_lesson u + 1"
  by (simp add: next_lesson_number_def)

lemma advance_below_last:
  assumes "users (view s) (from_id c) = Some u" and "has_access u"
    and "1 \<le> current_lesson u" and "current_lesson u < int (length lessons)"
    and "\<not> fails SelectUser" and "\<not> fails UpdateProgress"
  shows "advance e fails c s =
           (LessonMsg (Day (nat (current_lesson u + 1))),
            apply_write (update_progress (current_lesson u + 1) (today e) (from_id c) (now e)) s)"
proof -
  have l: "nth_js lessons (current_lesson u + 1 - 1) = Some (Day (nat (current_lesson u + 1)))"
    using assms(3,4) by (intro nth_js_lessons) (simp_all add: length_lessons)
  show ?thesis
    using assms l by (simp add: advance_def next_lesson_number_eq Let_def)
qed

lemma advance_at_last:
  assumes "users (view s) (from_id c) = Some u" and "has_access u"
    and "current_lesson u = int (length lessons)"
    and "\<not> fails SelectUser" and "\<not> fails UpdateProgress"
  shows "advance e fails c s =
           (CourseComplete,
            apply_write (update_progress (int (length lessons) + 1) (today e) (from_id c) (now e)) s)"
  using assms by (simp add: advance_def)

lemma advance_past_last:
  assumes "users (view s) (from_id c) = Some u" and "has_access u"
    and "int (length lessons) < current_lesson u"
    and "\<not> fails SelectUser"
  shows "advance e fails c s = (CourseComplete, s)"
  using assms by (simp add: advance_def)

lemma advance_not_too_soon: "fst (advance e fails c s) \<noteq> TooSoon"
  by (simp add: advance_def Let_def split: option.splits)

lemma user_after_update:
  assumes "users (view s) tid = Some u"
  shows "users (view (apply_write (update_progress n d tid t) s)) tid =
           Some (u\<lparr>current_lesson := n, last_lesson_date := Some d, updated_at := t\<rparr>)"
  using assms by (simp add: view_apply_write users_update_progress)

lemma others_after_update:
  "k \<noteq> tid \<Longrightarrow> users (view (apply_write (update_progress n d tid t) s)) k = users (view s) k"
  by (simp add: view_apply_write users_update_progress)

text \<open>
  Claim C4. For a user with a record, with access and with a current lesson from 1 to
  \<open>N - 1\<close>, the "continue" handler chooses as next index 2 when the current lesson is 1
  and the current lesson plus one otherwise, whatever the date of the last lesson and
  whatever the rendering of stored dates: the second branch of the source yields the same
  index as the first would. It stores that index and today's date in the user's row,
  leaves every other row alone, and replies with the lesson at the new index.
\<close>

theorem advance_serves_next_lesson:
  assumes "users (view s) (from_id c) = Some u" and "has_access u"
    and "1 \<le> current_lesson u" and "current_lesson u < int (length lessons)"
    and "\<not> fails SelectUser" and "\<not> fails UpdateProgress"
  shows "next_lesson_number e u = spec_next_index (current_lesson u)
       \<and> fst (advance e fails c s) = LessonMsg (Day (nat (spec_next_index (current_lesson u))))
       \<and> nth_js lessons (spec_next_index (current_lesson u) - 1)
           = Some (Day (nat (spec_next_index (current_lesson u))))
       \<and> users (view (snd (advance e fails c s))) (from_id c)
           = Some (u\<lparr>current_lesson := spec_next_index (current_lesson u),
                     last_lesson_date := Some (today e), updated_at := now e\<rparr>)
       \<and> (\<forall>k. k \<noteq> from_id c \<longrightarrow> users (view (snd (advance e fails c s))) k = users (view s) k)"
proof -
  have i: "spec_next_index (current_lesson u) = current_lesson u + 1"
    by (simp add: spec_next_index_def)
  have a: "advance e fails c s =
           (LessonMsg (Day (nat (current_lesson u + 1))),
            apply_write (update_progress (current_lesson u + 1) (today e) (from_id c) (now e)) s)"
    by (rule advance_below_last [where fails = fails, OF assms])
  have l: "nth_js lessons (current_lesson u + 1 - 1) = Some (Day (nat (current_lesson u + 1)))"
    using assms(3,4) by (intro nth_js_lessons) (simp_all add: length_lessons)
  show ?thesis
    unfolding i a using assms(1,4) l
    by (simp add: next_lesson_number_eq user_after_update others_after_update)
qed

theorem advance_serves_next_lesson_witness:
  "fst (advance scenario_env no_faults (request 7 ''go'') (student_store 7 (student True 1 (Some ''2025-01-15''))))
     = LessonMsg (Day 2)
   \<and> map_option current_lesson
       (users (view (snd (advance scenario_env no_faults (request 7 ''go'')
          (student_store 7 (student True 1 (Some ''2025-01-15'')))))) 7) = Some 2
   \<and> fst (advance scenario_env no_faults (request 7 ''go'') (student_store 7 (student True 4 None)))
     = LessonMsg (Day 5)"
  using advance_serves_next_lesson [of "student_store 7 (student True 1 (Some ''2025-01-15''))"
      "request 7 ''go''" "student True 1 (Some ''2025-01-15'')" no_faults scenario_env]
    advance_serves_next_lesson [of "student_store 7 (student True 4 None)"
      "request 7 ''go''" "student True 4 None" no_faults scenario_env]
  by (simp add: student_store_def student_def request_def no_faults_def view_def length_lessons
      spec_next_index_def)


text \<open>
  Claim C5. For a user with access: at the last lesson, the "continue" handler stores
  \<open>N + 1\<close> as the current lesson and announces the end of the course in the same call,
  and the call after that announces it again and leaves the store as it is; past the last
  lesson it announces the end of the course and leaves the whole store unchanged.
\<close>

theorem advance_completion:
  assumes "users (view s) (from_id c) = Some u" and "has_access u" and "\<not> fails SelectUser"
  shows "(current_lesson u = int (length lessons) \<and> \<not> fails UpdateProgress \<longrightarrow>
            fst (advance e fails c s) = CourseComplete
          \<and> users (view (snd (advance e fails c s))) (from_id c)
              = Some (u\<lparr>current_lesson := int (length lessons) + 1,
                        last_lesson_date := Some (today e), updated_at := now e\<rparr>)
          \<and> advance e' fails c (snd (advance e fails c s))
              = (CourseComplete, snd (advance e fails c s)))
       \<and> (int (length lessons) < current_lesson u \<longrightarrow> advance e fails c s = (CourseComplete, s))"
proof (intro conjI impI)
  assume h: "current_lesson u = int (length lessons) \<and> \<not> fails UpdateProgress"
  let ?s' = "apply_write (update_progress (int (length lessons) + 1) (today e) (from_id c) (now e)) s"
  let ?u' = "u\<lparr>current_lesson := int (length lessons) + 1,
                last_lesson_date := Some (today e), updated_at := now e\<rparr>"
  from h have h1: "current_lesson u = int (length lessons)" and h2: "\<not> fails UpdateProgress"
    by simp_all
  have a: "advance e fails c s = (CourseComplete, ?s')"
    by (rule advance_at_last [where fails = fails, OF assms(1,2) h1 assms(3) h2])
  have u': "users (view ?s') (from_id c) = Some ?u'"
    using assms(1) by (rule user_after_update)
  show "fst (advance e fails c s) = CourseComplete"
    by (simp add: a)
  show "users (view (snd (advance e fails c s))) (from_id c) = Some ?u'"
    by (simp add: a u')
  have "advance e' fails c ?s' = (CourseComplete, ?s')"
    by (rule advance_past_last [where fails = fails, OF u' _ _ assms(3)]) (simp_all add: assms(2))
  then show "advance e' fails c (snd (advance e fails c s)) = (CourseComplete, snd (advance e fails c s))"
    by (simp add: a)
next
  assume h: "int (length lessons) < current_lesson u"
  show "advance e fails c s = (CourseComplete, s)"
    by (rule advance_past_last [where fails = fails, OF assms(1,2) h assms(3)])
qed

theorem advance_completion_witness:
  "fst (advance scenario_env no_faults (request 7 ''go'') (student_store 7 (student True 10 None)))
     = CourseComplete
   \<and> map_option current_lesson
       (users (view (snd (advance scenario_env no_faults (request 7 ''go'')
          (student_store 7 (student True 10 None))))) 7) = Some 11
   \<and> advance scenario_env no_faults (request 7 ''go'') (student_store 7 (student True 11 None))
     = (CourseComplete, student_store 7 (student True 11 None))"
  using advance_completion [of "student_store 7 (student True 10 None)"
      "request 7 ''go''" "student True 10 None" no_faults scenario_env scenario_env]
    advance_completion [of "student_store 7 (student True 11 None)"
      "request 7 ''go''" "student True 11 None" no_faults scenario_env scenario_env]
  by (simp add: student_store_def student_def request_def no_faults_def view_def length_lessons)

section \<open>Properties of \<^verbatim>\<open>/start\<close>\<close>

lemma start_granted:
  assumes "users (view s) (from_id c) = Some u" and "has_access u"
    and "\<not> fails SelectAccess" and "\<not> fails ResetProgress"
  shows "start e fails c s =
           (Welcome (display_name c) (Day 1),
            apply_write (update_progress 1 (today e) (from_id c) (now e)) s)"
  using assms by (simp add: start_def nth_js_lessons_first)

text \<open>
  Claim C6. For a user with a record and with access, \<^verbatim>\<open>/start\<close> replies with the
  first lesson and sets the current lesson to 1 and the date of the last lesson to today,
  whatever the current lesson was, and leaves every other row alone. Issuing it again
  gives the same reply and the same store: a second \<^verbatim>\<open>/start\<close>, in any environment
  \<open>e'\<close>, behaves on the store left by the first exactly as it would have on the original.
\<close>

theorem start_resets_to_first_lesson:
  assumes "users (view s) (from_id c) = Some u" and "has_access u"
    and "\<not> fails SelectAccess" and "\<not> fails ResetProgress"
  shows "fst (start e fails c s) = Welcome (display_name c) (Day 1)
       \<and> nth_js lessons (1 - 1) = Some (Day 1)
       \<and> users (view (snd (start e fails c s))) (from_id c)
           = Some (u\<lparr>current_lesson := 1, last_lesson_date := Some (today e), updated_at := now e\<rparr>)
       \<and> (\<forall>k. k \<noteq> from_id c \<longrightarrow> users (view (snd (start e fails c s))) k = users (view s) k)
       \<and> start e fails c (snd (start e fails c s)) = start e fails c s
       \<and> start e' fails c (snd (start e fails c s)) = start e' fails c s"
proof -
  let ?w = "\<lambda>e. apply_write (update_progress 1 (today e) (from_id c) (now e))"
  let ?u' = "u\<lparr>current_lesson := 1, last_lesson_date := Some (today e), updated_at := now e\<rparr>"
  have a: "start e fails c s = (Welcome (display_name c) (Day 1), ?w e s)" for e
    by (rule start_granted [where fails = fails, OF assms])
  have u': "users (view (?w e s)) (from_id c) = Some ?u'"
    using assms(1) by (rule user_after_update)
  have again: "start e' fails c (?w e s) = (Welcome (display_name c) (Day 1), ?w e' (?w e s))" for e'
    by (rule start_granted [where fails = fails, OF u' _ assms(3,4)]) (simp add: assms(2))
  have over: "?w e' (?w e s) = ?w e' s" for e'
    by (simp add: apply_write_twice comp_def update_progress_twice)
  show ?thesis
    by (simp add: a u' again over others_after_update nth_js_lessons_first)
qed

theorem start_resets_to_first_lesson_witness:
  "fst (start scenario_env no_faults (request 7 ''/start'') (student_store 7 (student True 6 None)))
     = Welcome ''user'' (Day 1)
   \<and> map_option current_lesson
       (users (view (snd (start scenario_env no_faults (request 7 ''/start'')
          (student_store 7 (student True 6 None))))) 7) = Some 1
   \<and> map_option last_lesson_date
       (users (view (snd (start scenario_env no_faults (request 7 ''/start'')
          (student_store 7 (student True 6 None))))) 7) = Some (Some ''2025-01-15'')"
  using start_resets_to_first_lesson [of "student_store 7 (student True 6 None)"
      "request 7 ''/start''" "student True 6 None" no_faults scenario_env scenario_env]
  by (simp add: student_store_def student_def request_def no_faults_def view_def display_name_def
      scenario_env_def)

text \<open>
  Claim C7. The "continue" handler never replies "tomorrow". For a user with access and
  a current lesson of at least 1 it replies with the next lesson, or with the end of the
  course, whatever the stored date of the last lesson, today's date included; and right
  after a call that stored today's date, a second call in the same environment serves the
  lesson after that.
\<close>

theorem advance_cadence_inert:
  "fst (advance e fails c s) \<noteq> TooSoon
   \<and> (users (view s) (from_id c) = Some u \<and> has_access u \<and> 1 \<le> current_lesson u
        \<and> \<not> fails SelectUser \<and> \<not> fails UpdateProgress \<longrightarrow>
      fst (advance e fails c s) =
        (if current_lesson u < int (length lessons)
         then LessonMsg (Day (nat (current_lesson u + 1))) else CourseComplete))
   \<and> (users (view s) (from_id c) = Some u \<and> has_access u \<and> 1 \<le> current_lesson u
        \<and> current_lesson u + 1 < int (length lessons)
        \<and> \<not> fails SelectUser \<and> \<not> fails UpdateProgress \<longrightarrow>
      map_option last_lesson_date (users (view (snd (advance e fails c s))) (from_id c))
        = Some (Some (today e))
      \<and> fst (advance e fails c (snd (advance e fails c s)))
        = LessonMsg (Day (nat (current_lesson u + 2))))"
proof (intro conjI impI)
  show "fst (advance e fails c s) \<noteq> TooSoon"
    by (rule advance_not_too_soon)
next
  assume h: "users (view s) (from_id c) = Some u \<and> has_access u \<and> 1 \<le> current_lesson u
        \<and> \<not> fails SelectUser \<and> \<not> fails UpdateProgress"
  then have hu: "users (view s) (from_id c) = Some u" and ha: "has_access u"
    and h1: "1 \<le> current_lesson u"
    and f1: "\<not> fails SelectUser" and f2: "\<not> fails UpdateProgress"
    by simp_all
  consider "current_lesson u < int (length lessons)" | "current_lesson u = int (length lessons)"
    | "int (length lessons) < current_lesson u" by linarith
  then show "fst (advance e fails c s) =
        (if current_lesson u < int (length lessons)
         then LessonMsg (Day (nat (current_lesson u + 1))) else CourseComplete)"
  proof cases
    case 1
    have "advance e fails c s =
           (LessonMsg (Day (nat (current_lesson u + 1))),
            apply_write (update_progress (current_lesson u + 1) (today e) (from_id c) (now e)) s)"
      by (rule advance_below_last [where fails = fails, OF hu ha h1 1 f1 f2])
    with 1 show ?thesis by simp
  next
    case 2
    have "advance e fails c s =
           (CourseComplete,
            apply_write (update_progress (int (length lessons) + 1) (today e) (from_id c) (now e)) s)"
      by (rule advance_at_last [where fails = fails, OF hu ha 2 f1 f2])
    with 2 show ?thesis by simp
  next
    case 3
    have "advance e fails c s = (CourseComplete, s)"
      by (rule advance_past_last [where fails = fails, OF hu ha 3 f1])
    with 3 show ?thesis by simp
  qed
next
  assume h: "users (view s) (from_id c) = Some u \<and> has_access u \<and> 1 \<le> current_lesson u
        \<and> current_lesson u + 1 < int (length lessons)
        \<and> \<not> fails SelectUser \<and> \<not> fails UpdateProgress"
  let ?s' = "apply_write (update_progress (current_lesson u + 1) (today e) (from_id c) (now e)) s"
  let ?u' = "u\<lparr>current_lesson := current_lesson u + 1,
                last_lesson_date := Some (today e), updated_at := now e\<rparr>"
  from h have hu: "users (view s) (from_id c) = Some u" and ha: "has_access u"
    and h1: "1 \<le> current_lesson u" and h2: "current_lesson u + 1 < int (length lessons)"
    and f1: "\<not> fails SelectUser" and f2: "\<not> fails UpdateProgress"
    by simp_all
  have a: "advance e fails c s = (LessonMsg (Day (nat (current_lesson u + 1))), ?s')"
    by (rule advance_below_last [where fails = fails, OF hu ha h1 _ f1 f2]) (use h2 in simp)
  have u': "users (view ?s') (from_id c) = Some ?u'"
    using hu by (rule user_after_update)
  have b: "advance e fails c ?s' =
            (LessonMsg (Day (nat (current_lesson ?u' + 1))),
             apply_write (update_progress (current_lesson ?u' + 1) (today e) (from_id c) (now e)) ?s')"
    by (rule advance_below_last [where fails = fails, OF u' _ _ _ f1 f2]) (use ha h1 h2 in simp_all)
  show "map_option last_lesson_date (users (view (snd (advance e fails c s))) (from_id c))
        = Some (Some (today e))"
    by (simp add: a u')
  show "fst (advance e fails c (snd (advance e fails c s)))
        = LessonMsg (Day (nat (current_lesson u + 2)))"
    by (simp add: a b)
qed

theorem advance_cadence_inert_witness:
  "fst (advance scenario_env no_faults (request 7 ''go'')
         (student_store 7 (student True 3 (Some ''2025-01-15'')))) = LessonMsg (Day 4)
   \<and> fst (advance scenario_env no_faults (request 7 ''go'')
         (snd (advance scenario_env no_faults (request 7 ''go'')
            (student_store 7 (student True 3 (Some ''2025-01-15'')))))) = LessonMsg (Day 5)
   \<and> today scenario_env = ''2025-01-15''"
  using advance_cadence_inert [of scenario_env no_faults "request 7 ''go''"
      "student_store 7 (student True 3 (Some ''2025-01-15''))" "student True 3 (Some ''2025-01-15'')"]
  by (simp add: student_store_def student_def request_def no_faults_def view_def length_lessons
      scenario_env_def)


section \<open>Properties of \<^verbatim>\<open>/status\<close>\<close>

lemma status_store: "snd (status e fails c s) = s"
  by (simp add: status_def split: option.splits)

lemma status_found:
  assumes "users (view s) (from_id c) = Some u" and "\<not> fails SelectUser"
  shows "status e fails c s =
           (Status (current_lesson u) (length lessons) (progress u)
              (map_option (iso_of e) (last_lesson_date u)), s)"
  using assms by (simp add: status_def)

lemma status_repeated: "((\<lambda>s. snd (status e fails c s)) ^^ k) s = s"
  by (induction k) (simp_all add: status_store)

text \<open>
  Claim C8. \<^verbatim>\<open>/status\<close> returns the store it was given, under every fault plan and
  however often it is called. For an identity without a record it replies "write /start
  first"; for one with a record it reports the current lesson, the total \<open>N\<close>, the
  percentage \<open>round (100 * current_lesson / N)\<close>, which is what the source's
  \<open>round ((current_lesson / N) * 100)\<close> computes, and the date of the last lesson as the
  source renders it.
\<close>

theorem status_pure_read:
  "snd (status e fails c s) = s
   \<and> ((\<lambda>s. snd (status e fails c s)) ^^ k) s = s
   \<and> (\<not> fails SelectUser \<and> users (view s) (from_id c) = None \<longrightarrow>
        fst (status e fails c s) = NoSuchUser)
   \<and> (\<not> fails SelectUser \<and> users (view s) (from_id c) = Some u \<longrightarrow>
        fst (status e fails c s) =
          Status (current_lesson u) (length lessons)
            (spec_percent (current_lesson u) (length lessons))
            (map_option (iso_of e) (last_lesson_date u))
        \<and> progress u = spec_percent (current_lesson u) (length lessons))"
proof (intro conjI impI)
  show "snd (status e fails c s) = s"
    by (rule status_store)
  show "((\<lambda>s. snd (status e fails c s)) ^^ k) s = s"
    by (rule status_repeated)
  show "fst (status e fails c s) = NoSuchUser"
    if "\<not> fails SelectUser \<and> users (view s) (from_id c) = None"
    using that by (simp add: status_def)
  show "fst (status e fails c s) =
          Status (current_lesson u) (length lessons)
            (spec_percent (current_lesson u) (length lessons))
            (map_option (iso_of e) (last_lesson_date u))"
    if "\<not> fails SelectUser \<and> users (view s) (from_id c) = Some u"
    using that by (simp add: status_def progress_eq spec_percent_eq)
  show "progress u = spec_percent (current_lesson u) (length lessons)"
    by (simp add: progress_eq spec_percent_eq)
qed

theorem status_pure_read_witness:
  "status scenario_env no_faults (request 7 ''/status'') (student_store 7 (student True 3 (Some ''2025-01-14'')))
     = (Status 3 10 30 (Some ''2025-01-14''), student_store 7 (student True 3 (Some ''2025-01-14'')))
   \<and> fst (status scenario_env no_faults (request 8 ''/status'') (student_store 7 (student True 3 None)))
     = NoSuchUser"
  using status_pure_read [of scenario_env no_faults "request 7 ''/status''"
      "student_store 7 (student True 3 (Some ''2025-01-14''))" 1 "student True 3 (Some ''2025-01-14'')"]
    status_pure_read [of scenario_env no_faults "request 8 ''/status''"
      "student_store 7 (student True 3 None)" 1 "student True 3 None"]
  by (simp add: student_store_def student_def request_def no_faults_def view_def length_lessons
      scenario_env_def spec_percent_eq [unfolded length_lessons] prod_eq_iff)

text \<open>
  Claim C10. For an identity whose record exists with \<open>has_access\<close> false,
  \<^verbatim>\<open>/status\<close> still reports the progression fields, while \<^verbatim>\<open>/start\<close> and the
  "continue" handler refuse with the activation instructions and change nothing. On any
  store, \<^verbatim>\<open>/status\<close> answers "write /start first" exactly when there is no record,
  and never with the activation instructions.
\<close>

theorem status_not_gated_by_access:
  assumes "users (view s) (from_id c) = Some u" and "\<not> has_access u"
    and "\<not> fails SelectUser" and "\<not> fails SelectAccess"
  shows "status e fails c s =
           (Status (current_lesson u) (length lessons) (progress u)
              (map_option (iso_of e) (last_lesson_date u)), s)
       \<and> start e fails c s = (AccessDenied, s)
       \<and> advance e fails c s = (AccessDenied, s)
       \<and> (\<forall>s'. fst (status e fails c s') = NoSuchUser \<longleftrightarrow> users (view s') (from_id c) = None)
       \<and> (\<forall>s'. fst (status e fails c s') \<noteq> AccessDenied)"
proof (intro conjI allI)
  show "status e fails c s =
           (Status (current_lesson u) (length lessons) (progress u)
              (map_option (iso_of e) (last_lesson_date u)), s)"
    by (rule status_found [where fails = fails, OF assms(1,3)])
  show "start e fails c s = (AccessDenied, s)"
    using assms by (simp add: start_def)
  show "advance e fails c s = (AccessDenied, s)"
    using assms by (simp add: advance_def)
  show "fst (status e fails c s') = NoSuchUser \<longleftrightarrow> users (view s') (from_id c) = None" for s'
    using assms(3) by (simp add: status_def split: option.splits)
  show "fst (status e fails c s') \<noteq> AccessDenied" for s'
    by (simp add: status_def split: option.splits)
qed

theorem status_not_gated_by_access_witness:
  "status scenario_env no_faults (request 7 ''/status'') (student_store 7 (student False 3 None))
     = (Status 3 10 30 None, student_store 7 (student False 3 None))
   \<and> fst (start scenario_env no_faults (request 7 ''/status'') (student_store 7 (student False 3 None)))
     = AccessDenied
   \<and> fst (advance scenario_env no_faults (request 7 ''/status'') (student_store 7 (student False 3 None)))
     = AccessDenied"
  using status_not_gated_by_access [of "student_store 7 (student False 3 None)"
      "request 7 ''/status''" "student False 3 None" no_faults scenario_env]
  by (simp add: student_store_def student_def request_def no_faults_def view_def length_lessons
      progress_eq)

section \<open>Properties of \<^verbatim>\<open>/activate\<close>\<close>

lemma scenario_env_sel:
  "today scenario_env = ''2025-01-15''" "now scenario_env = 1000"
  "iso_of scenario_env = (\<lambda>d. d)"
  "toUpperCase scenario_env = ascii_toUpperCase" "trim scenario_env = ascii_trim"
  by (simp_all add: scenario_env_def)

lemma js_on_ascii_scenario_env: "js_on_ascii scenario_env"
  by (simp add: js_on_ascii_def scenario_env_sel)

lemma code_arg_examples:
  "code_arg scenario_env ''/activate pon-abcd1234'' = Some ''PON-ABCD1234''"
  "code_arg scenario_env ''/activate PON-ABCD1234'' = Some ''PON-ABCD1234''"
  "code_arg scenario_env ''/activate PON-EFGH5678'' = Some ''PON-EFGH5678''"
  "code_arg scenario_env ''/activate nope'' = Some ''NOPE''"
  "code_arg scenario_env ''/activate '' = Some []"
  "code_arg scenario_env ''/activate  pon-abcd1234'' = Some []"
  "code_arg scenario_env (''/activate pon-abcd1234'' @ [CHR 0x0A]) = Some ''PON-ABCD1234''"
  "code_arg scenario_env (''/activate '' @ [CHR 0x09] @ ''Pon-Abcd1234 now'') = Some ''PON-ABCD1234''"
  by code_simp+

text \<open>Run on its own, the small machine gives the reply and the store of the handler.\<close>

lemma activate_alone_eq:
  "activate_alone e fails c s =
     ([(c, Finished (fst (activate e fails c s)))], snd (activate e fails c s))"
  by (simp add: activate_alone_def activate_def activate_txn_def rollback_and_fail_def Let_def
      split: option.splits)

lemma redeem_alone_eq:
  "interleave (redeem_step e) [0, 0, 0, 0, 0, 0] [(fails, c, AtSelect)] s =
     ([(fails, c, Finished (fst (activate e fails c s)))], snd (activate e fails c s))"
  by (simp add: redeem_step_def activate_def activate_txn_def rollback_and_fail_def Let_def
      split: option.splits)

lemma activate_missing:
  "code_arg e (message_text c) = None \<or> code_arg e (message_text c) = Some [] \<Longrightarrow>
   activate e fails c s = (CodeMissing, s)"
  by (auto simp: activate_def)

lemma activate_already_used:
  assumes "code_arg e (message_text c) = Some code" and "code \<noteq> []" and "\<not> fails SelectCode"
    and "access_codes (view s) code = Some r" and "is_used r"
  shows "activate e fails c s = (CodeAlreadyUsed, s)"
  using assms by (simp add: activate_def)

lemma activate_granted:
  assumes "pending s = None"
    and "code_arg e (message_text c) = Some code" and "code \<noteq> []"
    and "access_codes (committed s) code = Some r" and "\<not> is_used r"
    and "\<forall>q. \<not> fails q"
  shows "activate e fails c s =
           (Activated,
            \<lparr>committed = upsert_user (from_id c) (today e) (now e)
                 (mark_code_used (from_id c) (now e) code (committed s)),
             pending = None\<rparr>)"
  using assms
  by (simp add: activate_def activate_txn_def Let_def view_def begin_txn_def apply_write_def
      commit_txn_def)

text \<open>
  One invocation after another: once a redemption has succeeded, a later attempt with the
  same code is refused.
\<close>

lemma activate_second_attempt:
  assumes "pending s = None" and "fst (activate e fails c s) = Activated"
    and "code_arg e' (message_text c') = code_arg e (message_text c)"
    and "\<not> fails' SelectCode"
  shows "activate e' fails' c' (snd (activate e fails c s)) =
           (CodeAlreadyUsed, snd (activate e fails c s))"
proof -
  from assms(2) obtain code r where h: "code_arg e (message_text c) = Some code" "code \<noteq> []"
      "\<not> fails SelectCode" "access_codes (view s) code = Some r" "\<not> is_used r" "\<not> fails Begin"
    by (auto simp: activate_def split: option.splits if_splits)
  then have a: "activate e fails c s = activate_txn e fails (from_id c) code (begin_txn s)"
    by (simp add: activate_def)
  from assms(2) have ok: "\<not> fails MarkCodeUsed" "\<not> fails UpsertUser" "\<not> fails Commit"
    unfolding a by (auto simp: activate_txn_def rollback_and_fail_def Let_def split: if_splits)
  have s': "snd (activate e fails c s) =
      \<lparr>committed = upsert_user (from_id c) (today e) (now e)
          (mark_code_used (from_id c) (now e) code (committed s)), pending = None\<rparr>"
    using assms(1) ok
    by (simp add: a activate_txn_def Let_def begin_txn_def apply_write_def commit_txn_def)
  have "\<exists>r'. access_codes (view (snd (activate e fails c s))) code = Some r' \<and> is_used r'"
    using h(4) assms(1)
    by (simp add: s' view_def upsert_user_def mark_code_used_def split: option.splits)
  then obtain r' where used: "access_codes (view (snd (activate e fails c s))) code = Some r'"
      "is_used r'"
    by blast
  have c': "code_arg e' (message_text c') = Some code"
    using assms(3) h(1) by simp
  show ?thesis
    by (rule activate_already_used [where fails = fails', OF c' h(2) assms(4) used])
qed

text \<open>
  An invocation that nothing interrupts, on a session without an open transaction, is
  all or nothing when its \<^verbatim>\<open>ROLLBACK\<close> succeeds: if the upsert throws after the code
  was marked, the store is the one from before the call.
\<close>

lemma activate_alone_all_or_nothing:
  assumes "pending s = None"
    and "code_arg e (message_text c) = Some code" and "code \<noteq> []"
    and "access_codes (committed s) code = Some r" and "\<not> is_used r"
    and "\<not> fails SelectCode" and "\<not> fails Begin" and "\<not> fails MarkCodeUsed"
    and "fails UpsertUser" and "\<not> fails Rollback"
  shows "activate e fails c s = (ErrorReply, s)"
  using assms
  by (simp add: activate_def activate_txn_def Let_def view_def rollback_and_fail_def
      rollback_txn_def apply_write_def begin_txn_def)


text \<open>
  The same happens without interleaving when the \<^verbatim>\<open>ROLLBACK\<close> throws too: the session
  keeps the open transaction, and the next successful redemption commits the mark.
\<close>

lemma failed_rollback_then_commit:
  "map_option is_used
     (access_codes (committed (run_invocations
        [(scenario_env, upsert_and_rollback_fail, Activate, request 1 ''/activate PON-ABCD1234''),
         (scenario_env, no_faults, Activate, request 2 ''/activate PON-EFGH5678'')]
        two_codes_store)) ''PON-ABCD1234'') = Some True
   \<and> users (committed (run_invocations
        [(scenario_env, upsert_and_rollback_fail, Activate, request 1 ''/activate PON-ABCD1234''),
         (scenario_env, no_faults, Activate, request 2 ''/activate PON-EFGH5678'')]
        two_codes_store)) 1 = None"
  by (simp add: activate_def activate_txn_def rollback_and_fail_def Let_def two_codes_store_def
      request_def no_faults_def upsert_and_rollback_fail_def scenario_env_sel code_arg_examples
      view_def apply_write_def begin_txn_def commit_txn_def rollback_txn_def mark_code_used_def
      upsert_user_def)


section \<open>What the handlers do to a user's row\<close>

lemma next_lesson_number_ge: "current_lesson u \<le> next_lesson_number e u"
  by (simp add: next_lesson_number_def)

lemma advance_alone_eq:
  "interleave (press_step e fails) [0, 0] [(c, AtSelectUser)] s =
     ([(c, Replied (fst (advance e fails c s)))], snd (advance e fails c s))"
  by (simp add: press_step_def advance_def Let_def split: option.splits)

lemma activate_user_row:
  assumes "pending s = None" and "users (view s) t = Some u"
  shows "\<exists>u'. users (view (snd (activate e fails c s))) t = Some u'
           \<and> (has_access u \<longrightarrow> has_access u') \<and> current_lesson u' = current_lesson u"
  using assms
  by (auto simp: activate_def activate_txn_def rollback_and_fail_def Let_def view_def
      apply_write_def begin_txn_def commit_txn_def rollback_txn_def users_upsert_user
      users_mark_code_used split: option.splits)

lemma start_user_row:
  assumes "users (view s) t = Some u"
  shows "\<exists>u'. users (view (snd (start e fails c s))) t = Some u'
           \<and> has_access u' = has_access u
           \<and> (current_lesson u' = current_lesson u \<or> t = from_id c \<and> current_lesson u' = 1)"
  using assms
  by (auto simp: start_def Let_def view_apply_write users_update_progress nth_js_lessons_first
      split: option.splits)

lemma advance_user_row:
  assumes "users (view s) t = Some u"
  shows "\<exists>u'. users (view (snd (advance e fails c s))) t = Some u'
           \<and> has_access u' = has_access u \<and> current_lesson u \<le> current_lesson u'"
  using assms next_lesson_number_ge [of u e]
  by (auto simp: advance_def Let_def view_apply_write users_update_progress
      split: option.splits)

lemma handle_user_row:
  assumes "pending s = None" and "users (view s) t = Some u"
  shows "\<exists>u'. users (view (snd (handle e fails cmd c s))) t = Some u'
           \<and> (has_access u \<longrightarrow> has_access u')
           \<and> (current_lesson u \<le> current_lesson u'
               \<or> cmd = Start \<and> from_id c = t \<and> current_lesson u' = 1)"
proof (cases cmd)
  case Activate
  with activate_user_row [OF assms, of e fails c] show ?thesis by auto
next
  case Start
  with start_user_row [OF assms(2), of e fails c] show ?thesis by auto
next
  case Continue
  with advance_user_row [OF assms(2), of e fails c] show ?thesis by auto
next
  case GetStatus
  with assms(2) show ?thesis by (simp add: status_store)
qed

lemma handle_keeps_session_clean:
  assumes "pending s = None" and "\<not> fails Rollback"
  shows "pending (snd (handle e fails cmd c s)) = None"
proof (cases cmd)
  case Activate
  with assms show ?thesis
    by (simp add: activate_def activate_txn_def rollback_and_fail_def Let_def apply_write_def
        begin_txn_def commit_txn_def rollback_txn_def split: option.splits)
next
  case Start
  with assms(1) show ?thesis
    by (simp add: start_def Let_def apply_write_def split: option.splits)
next
  case Continue
  with assms(1) show ?thesis
    by (simp add: advance_def Let_def apply_write_def split: option.splits)
next
  case GetStatus
  with assms(1) show ?thesis by (simp add: status_store)
qed

lemma run_invocations_user_row:
  assumes "pending s = None" and "\<forall>i \<in> set run. \<not> rollback_fails i"
    and "users (view s) t = Some u"
  shows "pending (run_invocations run s) = None
       \<and> (\<exists>u'. users (view (run_invocations run s)) t = Some u'
             \<and> (has_access u \<longrightarrow> has_access u')
             \<and> ((\<forall>i \<in> set run. \<not> restarts t i) \<longrightarrow> current_lesson u \<le> current_lesson u'))"
  using assms
proof (induction run arbitrary: s u)
  case Nil
  then show ?case by simp
next
  case (Cons i run)
  obtain e fails cmd c where i: "i = (e, fails, cmd, c)"
    by (cases i) auto
  let ?s1 = "snd (handle e fails cmd c s)"
  from Cons.prems(2) have nr: "\<not> fails Rollback" and rest: "\<forall>j \<in> set run. \<not> rollback_fails j"
    by (simp_all add: i rollback_fails_def)
  have clean: "pending ?s1 = None"
    by (rule handle_keeps_session_clean [where fails = fails, OF Cons.prems(1) nr])
  from handle_user_row [OF Cons.prems(1,3), of e fails cmd c]
  obtain u1 where u1: "users (view ?s1) t = Some u1" "has_access u \<longrightarrow> has_access u1"
      "current_lesson u \<le> current_lesson u1 \<or> cmd = Start \<and> from_id c = t \<and> current_lesson u1 = 1"
    by blast
  from Cons.IH [OF clean rest u1(1)]
  obtain u' where u': "pending (run_invocations run ?s1) = None"
      "users (view (run_invocations run ?s1)) t = Some u'" "has_access u1 \<longrightarrow> has_access u'"
      "(\<forall>j \<in> set run. \<not> restarts t j) \<longrightarrow> current_lesson u1 \<le> current_lesson u'"
    by blast
  have "(\<forall>j \<in> set (i # run). \<not> restarts t j) \<longrightarrow> current_lesson u \<le> current_lesson u'"
    using u1(3) u'(4) by (auto simp: i restarts_def)
  with u' u1(2) show ?case
    by (auto simp: i)
qed

text \<open>
  Claim C3 says that the current lesson of a row never decreases except by \<^verbatim>\<open>/start\<close>.
  That fails in two ways. Three presses of the button by a user at lesson 5: the first
  reads the row, the second and the third run from their \<^verbatim>\<open>SELECT\<close> to their reply
  and take the row to lesson 7, and then the \<^verbatim>\<open>UPDATE\<close> of the first, computed from
  the row it read, stores lesson 6. And without interleaving: after a redemption whose
  \<^verbatim>\<open>ROLLBACK\<close> threw, a press takes the user from lesson 5 to lesson 6 inside the
  transaction that was left open, and the \<^verbatim>\<open>ROLLBACK\<close> of a later failing redemption
  takes the row back to lesson 5. No \<^verbatim>\<open>/start\<close> occurs in either run.
\<close>

theorem lesson_decreases_without_start:
  "map_option current_lesson (users (view (snd (three_presses [0, 1, 1, 2, 2]))) 7) = Some 7
   \<and> map_option current_lesson (users (view (snd (three_presses [0, 1, 1, 2, 2, 0]))) 7) = Some 6
   \<and> map snd (fst (three_presses [0, 1, 1, 2, 2, 0]))
       = [Replied (LessonMsg (Day 6)), Replied (LessonMsg (Day 6)), Replied (LessonMsg (Day 7))]
   \<and> map_option current_lesson
       (users (view (run_invocations after_failed_rollback
          (student_codes_store 7 (student True 5 None)))) 7) = Some 6
   \<and> map_option current_lesson
       (users (view (run_invocations
          (after_failed_rollback @
             [(scenario_env, upsert_fails, Activate, request 7 ''/activate PON-EFGH5678'')])
          (student_codes_store 7 (student True 5 None)))) 7) = Some 5"
proof -
  have p: "map_option current_lesson (users (view (snd (three_presses [0, 1, 1, 2, 2]))) 7) = Some 7
     \<and> map_option current_lesson (users (view (snd (three_presses [0, 1, 1, 2, 2, 0]))) 7) = Some 6
     \<and> map snd (fst (three_presses [0, 1, 1, 2, 2, 0]))
       = [Replied (LessonMsg (Day 6)), Replied (LessonMsg (Day 6)), Replied (LessonMsg (Day 7))]"
    by (simp add: three_presses_def press_step_def student_store_def student_def request_def
        no_faults_def scenario_env_sel view_def apply_write_def update_progress_def
        next_lesson_number_def nth_js_def lessons_def Let_def)
  have r: "map_option current_lesson
       (users (view (run_invocations after_failed_rollback
          (student_codes_store 7 (student True 5 None)))) 7) = Some 6
   \<and> map_option current_lesson
       (users (view (run_invocations
          (after_failed_rollback @
             [(scenario_env, upsert_fails, Activate, request 7 ''/activate PON-EFGH5678'')])
          (student_codes_store 7 (student True 5 None)))) 7) = Some 5"
    by (simp add: after_failed_rollback_def activate_def activate_txn_def rollback_and_fail_def
        advance_def Let_def student_codes_store_def student_def request_def no_faults_def
        upsert_fails_def upsert_and_rollback_fail_def scenario_env_sel code_arg_examples view_def
        apply_write_def begin_txn_def rollback_txn_def mark_code_used_def update_progress_def
        next_lesson_number_def nth_js_def lessons_def)
  from p r show ?thesis by blast
qed

text \<open>
  Claim C3 as amended. Take a run of invocations, of any entry points, requests and fault
  plans, in which each invocation comes to its reply before the next starts and no
  \<^verbatim>\<open>ROLLBACK\<close> throws, from a session without an open transaction. Then the session
  has no open transaction at the end; every user row that exists before the run exists
  after it; a row with access has access after it; and the current lesson of a row has
  not decreased if the run has no \<^verbatim>\<open>/start\<close> of that row's user. A single invocation
  either does not decrease the current lesson of a row or is a \<^verbatim>\<open>/start\<close> of that
  row's user and sets it to 1. And in every execution: none of the three writing
  statements removes a row or takes access away.
\<close>

theorem progression_monotone:
  assumes "pending s = None" and "\<forall>i \<in> set run. \<not> rollback_fails i"
    and "users (view s) t = Some u"
  shows "pending (run_invocations run s) = None
       \<and> (\<exists>u'. users (view (run_invocations run s)) t = Some u'
             \<and> (has_access u \<longrightarrow> has_access u')
             \<and> ((\<forall>i \<in> set run. \<not> restarts t i) \<longrightarrow> current_lesson u \<le> current_lesson u'))
       \<and> (\<exists>u'. users (view (snd (handle e fails cmd c s))) t = Some u'
             \<and> (current_lesson u \<le> current_lesson u'
                 \<or> cmd = Start \<and> from_id c = t \<and> current_lesson u' = 1))
       \<and> (\<forall>T. users T t = Some u \<longrightarrow>
             (\<exists>u'. users (mark_code_used tid ts code T) t = Some u'
                \<and> (has_access u \<longrightarrow> has_access u'))
           \<and> (\<exists>u'. users (upsert_user tid d ts T) t = Some u'
                \<and> (has_access u \<longrightarrow> has_access u'))
           \<and> (\<exists>u'. users (update_progress n d tid ts T) t = Some u'
                \<and> (has_access u \<longrightarrow> has_access u')))"
proof -
  have w: "\<forall>T. users T t = Some u \<longrightarrow>
             (\<exists>u'. users (mark_code_used tid ts code T) t = Some u'
                \<and> (has_access u \<longrightarrow> has_access u'))
           \<and> (\<exists>u'. users (upsert_user tid d ts T) t = Some u'
                \<and> (has_access u \<longrightarrow> has_access u'))
           \<and> (\<exists>u'. users (update_progress n d tid ts T) t = Some u'
                \<and> (has_access u \<longrightarrow> has_access u'))"
    by (simp add: users_mark_code_used users_upsert_user users_update_progress)
  have one: "\<exists>u'. users (view (snd (handle e fails cmd c s))) t = Some u'
             \<and> (current_lesson u \<le> current_lesson u'
                 \<or> cmd = Start \<and> from_id c = t \<and> current_lesson u' = 1)"
    using handle_user_row [OF assms(1,3), of e fails cmd c] by blast
  from run_invocations_user_row [OF assms] one w show ?thesis
    by blast
qed

text \<open>
  The user is at lesson 3 and presses the button, asks for the status, redeems a code
  under a plan whose upsert throws, and presses the button again.
\<close>

theorem progression_monotone_witness:
  "(\<exists>u'. users (view (run_invocations
        [(scenario_env, no_faults, Continue, request 7 ''go''),
         (scenario_env, no_faults, GetStatus, request 7 ''/status''),
         (scenario_env, upsert_fails, Activate, request 7 ''/activate PON-ABCD1234''),
         (scenario_env, no_faults, Continue, request 7 ''go'')]
        (student_codes_store 7 (student True 3 None)))) 7 = Some u'
      \<and> has_access u' \<and> 3 \<le> current_lesson u')
   \<and> map_option current_lesson
       (users (view (snd (handle scenario_env no_faults Start (request 7 ''/start'')
          (student_codes_store 7 (student True 3 None))))) 7) = Some 1"
proof -
  let ?run = "[(scenario_env, no_faults, Continue, request 7 ''go''),
         (scenario_env, no_faults, GetStatus, request 7 ''/status''),
         (scenario_env, upsert_fails, Activate, request 7 ''/activate PON-ABCD1234''),
         (scenario_env, no_faults, Continue, request 7 ''go'')]"
  let ?s = "student_codes_store 7 (student True 3 None)"
  have h1: "pending ?s = None"
    by (simp add: student_codes_store_def)
  have h2: "\<forall>i \<in> set ?run. \<not> rollback_fails i"
    by (simp add: rollback_fails_def no_faults_def upsert_fails_def)
  have h3: "users (view ?s) 7 = Some (student True 3 None)"
    by (simp add: student_codes_store_def view_def)
  have h4: "\<forall>i \<in> set ?run. \<not> restarts 7 i"
    by (simp add: restarts_def)
  note t = progression_monotone [OF h1 h2 h3, where e = scenario_env and fails = no_faults
      and cmd = Start and c = "request 7 ''/start''"]
  from t h4 have a: "\<exists>u'. users (view (run_invocations ?run ?s)) 7 = Some u'
      \<and> has_access u' \<and> 3 \<le> current_lesson u'"
    by (auto simp: student_def)
  have b: "map_option current_lesson
       (users (view (snd (handle scenario_env no_faults Start (request 7 ''/start'') ?s))) 7)
       = Some 1"
    by (simp add: no_faults_def student_codes_store_def student_def request_def view_def
        start_def Let_def apply_write_def update_progress_def nth_js_def lessons_def)
  from a b show ?thesis by blast
qed


section \<open>Parsing the code\<close>

lemma split_space_no_space: "CHR '' '' \<notin> set w \<Longrightarrow> split_space w = [w]"
  by (induction w) auto

lemma split_space_append:
  "CHR '' '' \<notin> set w \<Longrightarrow> split_space (w @ CHR '' '' # rest) = w # split_space rest"
  by (induction w) auto

lemma code_arg_token:
  assumes "CHR '' '' \<notin> set cmd" and "CHR '' '' \<notin> set raw"
  shows "code_arg e (cmd @ CHR '' '' # raw) = Some (trim e (toUpperCase e raw))"
    and "code_arg e (cmd @ CHR '' '' # raw @ CHR '' '' # rest) = Some (trim e (toUpperCase e raw))"
  using assms
  by (simp_all add: code_arg_def nth_js_def split_space_append split_space_no_space)

lemma code_arg_no_token: "CHR '' '' \<notin> set txt \<Longrightarrow> code_arg e txt = None"
  by (simp add: code_arg_def nth_js_def split_space_no_space)

lemma upper_char_ascii:
  "(of_char ch :: nat) < 128 \<Longrightarrow> (of_char (upper_char ch) :: nat) < 128"
  by (auto simp: upper_char_def Let_def of_char_of)

lemma ascii_text_toUpperCase: "ascii_text w \<Longrightarrow> ascii_text (ascii_toUpperCase w)"
  by (induction w) (simp_all add: ascii_text_def ascii_toUpperCase_def upper_char_ascii)

lemma is_space_upper_char: "is_space (upper_char ch) = is_space ch"
proof -
  have "of_char (char_of (of_char ch - 32 :: nat)) = (of_char ch - 32 :: nat)"
    if "97 \<le> (of_char ch :: nat)" "(of_char ch :: nat) \<le> 122"
    using that by (simp add: of_char_of)
  then show ?thesis
    by (auto simp: is_space_def upper_char_def Let_def)
qed

lemma dropWhile_toUpperCase:
  "dropWhile is_space (ascii_toUpperCase w) = ascii_toUpperCase (dropWhile is_space w)"
  by (induction w) (simp_all add: ascii_toUpperCase_def is_space_upper_char)

lemma trim_toUpperCase: "ascii_trim (ascii_toUpperCase w) = ascii_toUpperCase (ascii_trim w)"
proof -
  have r: "rev (ascii_toUpperCase v) = ascii_toUpperCase (rev v)" for v
    by (simp add: ascii_toUpperCase_def rev_map)
  show ?thesis
    by (simp add: ascii_trim_def dropWhile_toUpperCase r)
qed

lemma normalise_ascii:
  assumes "js_on_ascii e" and "ascii_text raw"
  shows "trim e (toUpperCase e raw) = ascii_trim (ascii_toUpperCase raw)"
proof -
  from assms have "toUpperCase e raw = ascii_toUpperCase raw"
    by (simp add: js_on_ascii_def)
  moreover from assms have "trim e (ascii_toUpperCase raw) = ascii_trim (ascii_toUpperCase raw)"
    by (simp add: js_on_ascii_def ascii_text_toUpperCase)
  ultimately show ?thesis by simp
qed

lemma normalise_examples:
  "ascii_text ''pon-abcd1234''"
  "ascii_trim (ascii_toUpperCase ''pon-abcd1234'') = ''PON-ABCD1234''"
  "ascii_trim (ascii_toUpperCase '' pon-abcd1234'') = ''PON-ABCD1234''"
  by code_simp+

text \<open>
  Claim C9 says that the raw code is trimmed and uppercased before the lookup, that
  "please give an access code" is the answer when no code was supplied, and that after
  \<^verbatim>\<open>redeem(42, "pon-abcd1234")\<close> the status of 42 shows lesson 1. Two inputs show
  otherwise. A code that follows the command after two spaces is a raw code with a space
  in front, which trimming and uppercasing take to the unredeemed code; the handler
  answers "please give an access code" and redeems nothing, because the piece it reads
  is the empty text between the two spaces. And for a user 42 who is at lesson 5 the
  redemption succeeds and the status shows lesson 5 of 10 and 50 percent.
\<close>

theorem redeem_claim_counterexample:
  "activate scenario_env no_faults (request 42 ''/activate  pon-abcd1234'') scenario_store
     = (CodeMissing, scenario_store)
   \<and> ascii_trim (ascii_toUpperCase '' pon-abcd1234'') = ''PON-ABCD1234''
   \<and> map_option is_used (access_codes (committed scenario_store) ''PON-ABCD1234'') = Some False
   \<and> fst (activate scenario_env no_faults (request 42 ''/activate pon-abcd1234'')
        (student_codes_store 42 (student True 5 None))) = Activated
   \<and> fst (status scenario_env no_faults (request 42 ''/status'')
        (snd (activate scenario_env no_faults (request 42 ''/activate pon-abcd1234'')
           (student_codes_store 42 (student True 5 None))))) = Status 5 10 50 None"
proof -
  have a: "activate scenario_env no_faults (request 42 ''/activate  pon-abcd1234'') scenario_store
     = (CodeMissing, scenario_store)"
    by (rule activate_missing) (simp add: request_def code_arg_examples)
  have b: "map_option is_used (access_codes (committed scenario_store) ''PON-ABCD1234'') = Some False"
    by (simp add: scenario_store_def)
  have g: "activate scenario_env no_faults (request 42 ''/activate pon-abcd1234'')
        (student_codes_store 42 (student True 5 None)) =
      (Activated,
       \<lparr>committed = upsert_user 42 (today scenario_env) (now scenario_env)
          (mark_code_used 42 (now scenario_env) ''PON-ABCD1234''
             (committed (student_codes_store 42 (student True 5 None)))),
        pending = None\<rparr>)"
    using activate_granted [where e = scenario_env and fails = no_faults
        and c = "request 42 ''/activate pon-abcd1234''"
        and s = "student_codes_store 42 (student True 5 None)" and code = "''PON-ABCD1234''"
        and r = "\<lparr>is_used = False, used_by_telegram_id = None, used_at = None\<rparr>"]
    by (simp add: request_def code_arg_examples student_codes_store_def no_faults_def)
  have c: "fst (status scenario_env no_faults (request 42 ''/status'')
        (snd (activate scenario_env no_faults (request 42 ''/activate pon-abcd1234'')
           (student_codes_store 42 (student True 5 None))))) = Status 5 10 50 None"
    unfolding g
    by (simp add: status_def no_faults_def request_def view_def users_upsert_user
        users_mark_code_used student_codes_store_def student_def progress_eq length_lessons)
  from a b g c normalise_examples(3) show ?thesis by simp
qed

text \<open>
  Claim C9 as amended. \<^verbatim>\<open>/activate\<close> reads the text between the first and the second
  space of the message (to the end when there is no second space), applies
  \<^verbatim>\<open>toUpperCase\<close> and then \<^verbatim>\<open>trim\<close>, and looks the result up; on a piece of ASCII
  characters that raises the letters and drops tabs and line breaks at both ends, in
  either order. It replies "please give an access code" when the message has no space or
  the piece is empty after normalisation, "access code not found" when no row has the
  normalised code, and "this code was already used" when the row has \<open>is_used\<close> true;
  the store is unchanged in all three cases. When the row is unused, the session has no
  open transaction and no statement throws, it replies "access code activated", commits
  the mark and the upsert, and a following \<^verbatim>\<open>/status\<close> of the same identity reports
  lesson 1 of 10 and 10 percent when the identity had no record, and the lesson of the
  record it had otherwise. The message \<^verbatim>\<open>/activate pon-abcd1234\<close> is looked up as
  \<^verbatim>\<open>PON-ABCD1234\<close>.
\<close>

theorem activate_normalizes_and_rejects:
  "(CHR '' '' \<notin> set cmd \<and> CHR '' '' \<notin> set raw \<longrightarrow>
      code_arg e (cmd @ '' '' @ raw) = Some (trim e (toUpperCase e raw))
    \<and> code_arg e (cmd @ '' '' @ raw @ '' '' @ rest) = Some (trim e (toUpperCase e raw)))
   \<and> (js_on_ascii e \<and> ascii_text raw \<longrightarrow>
      trim e (toUpperCase e raw) = ascii_trim (ascii_toUpperCase raw)
    \<and> ascii_trim (ascii_toUpperCase raw) = ascii_toUpperCase (ascii_trim raw))
   \<and> (js_on_ascii e \<longrightarrow> code_arg e ''/activate pon-abcd1234'' = Some ''PON-ABCD1234'')
   \<and> (CHR '' '' \<notin> set (message_text c) \<or> code_arg e (message_text c) = Some [] \<longrightarrow>
        activate e fails c s = (CodeMissing, s))
   \<and> (code_arg e (message_text c) = Some code \<and> code \<noteq> [] \<and> \<not> fails SelectCode
        \<and> access_codes (view s) code = None \<longrightarrow>
        activate e fails c s = (CodeNotFound, s))
   \<and> (code_arg e (message_text c) = Some code \<and> code \<noteq> [] \<and> \<not> fails SelectCode
        \<and> access_codes (view s) code = Some r \<and> is_used r \<longrightarrow>
        activate e fails c s = (CodeAlreadyUsed, s))
   \<and> (pending s = None \<and> code_arg e (message_text c) = Some code \<and> code \<noteq> []
        \<and> access_codes (committed s) code = Some r \<and> \<not> is_used r
        \<and> (\<forall>q. \<not> fails q) \<and> from_id c' = from_id c \<longrightarrow>
        activate e fails c s =
          (Activated,
           \<lparr>committed = upsert_user (from_id c) (today e) (now e)
                (mark_code_used (from_id c) (now e) code (committed s)),
            pending = None\<rparr>)
        \<and> map_option is_used (access_codes (committed (snd (activate e fails c s))) code)
            = Some True
        \<and> fst (status e' fails c' (snd (activate e fails c s))) =
            (case users (committed s) (from_id c) of
               None \<Rightarrow> Status 1 10 10 (Some (iso_of e' (today e)))
             | Some u \<Rightarrow>
                 Status (current_lesson u) 10 (10 * current_lesson u)
                   (map_option (iso_of e') (last_lesson_date u))))"
proof (intro conjI impI)
  assume h: "CHR '' '' \<notin> set cmd \<and> CHR '' '' \<notin> set raw"
  then show "code_arg e (cmd @ '' '' @ raw) = Some (trim e (toUpperCase e raw))"
    by (simp add: code_arg_token)
  from h show "code_arg e (cmd @ '' '' @ raw @ '' '' @ rest) = Some (trim e (toUpperCase e raw))"
    by (simp add: code_arg_token)
next
  assume "js_on_ascii e \<and> ascii_text raw"
  then show "trim e (toUpperCase e raw) = ascii_trim (ascii_toUpperCase raw)"
    by (simp add: normalise_ascii)
next
  show "ascii_trim (ascii_toUpperCase raw) = ascii_toUpperCase (ascii_trim raw)"
    by (rule trim_toUpperCase)
next
  assume j: "js_on_ascii e"
  have "code_arg e (''/activate'' @ CHR '' '' # ''pon-abcd1234'')
          = Some (trim e (toUpperCase e ''pon-abcd1234''))"
    by (rule code_arg_token) simp_all
  also have "trim e (toUpperCase e ''pon-abcd1234'') = ''PON-ABCD1234''"
    using normalise_ascii [OF j normalise_examples(1)] by (simp only: normalise_examples(2))
  finally show "code_arg e ''/activate pon-abcd1234'' = Some ''PON-ABCD1234''"
    by simp
next
  assume "CHR '' '' \<notin> set (message_text c) \<or> code_arg e (message_text c) = Some []"
  then have "code_arg e (message_text c) = None \<or> code_arg e (message_text c) = Some []"
    by (auto simp: code_arg_no_token)
  then show "activate e fails c s = (CodeMissing, s)"
    by (rule activate_missing)
next
  assume "code_arg e (message_text c) = Some code \<and> code \<noteq> [] \<and> \<not> fails SelectCode
        \<and> access_codes (view s) code = None"
  then show "activate e fails c s = (CodeNotFound, s)"
    by (simp add: activate_def)
next
  assume "code_arg e (message_text c) = Some code \<and> code \<noteq> [] \<and> \<not> fails SelectCode
        \<and> access_codes (view s) code = Some r \<and> is_used r"
  then show "activate e fails c s = (CodeAlreadyUsed, s)"
    by (simp add: activate_def)
next
  assume h: "pending s = None \<and> code_arg e (message_text c) = Some code \<and> code \<noteq> []
        \<and> access_codes (committed s) code = Some r \<and> \<not> is_used r
        \<and> (\<forall>q. \<not> fails q) \<and> from_id c' = from_id c"
  let ?s' = "\<lparr>committed = upsert_user (from_id c) (today e) (now e)
                (mark_code_used (from_id c) (now e) code (committed s)),
            pending = None\<rparr>"
  show a: "activate e fails c s = (Activated, ?s')"
    by (rule activate_granted [where fails = fails and r = r]) (use h in simp_all)
  show "map_option is_used (access_codes (committed (snd (activate e fails c s))) code) = Some True"
    using h by (simp add: a upsert_user_def mark_code_used_def split: option.splits)
  show "fst (status e' fails c' (snd (activate e fails c s))) =
            (case users (committed s) (from_id c) of
               None \<Rightarrow> Status 1 10 10 (Some (iso_of e' (today e)))
             | Some u \<Rightarrow>
                 Status (current_lesson u) 10 (10 * current_lesson u)
                   (map_option (iso_of e') (last_lesson_date u)))"
    using h
    by (simp add: a status_def view_def users_upsert_user users_mark_code_used progress_eq
        length_lessons split: option.splits)
qed

theorem activate_normalizes_and_rejects_witness:
  "code_arg scenario_env (''/activate'' @ '' '' @ ''pon-abcd1234'') = Some ''PON-ABCD1234''
   \<and> activate scenario_env no_faults (request 42 ''/activate'') scenario_store
       = (CodeMissing, scenario_store)
   \<and> activate scenario_env no_faults (request 42 ''/activate '') scenario_store
       = (CodeMissing, scenario_store)
   \<and> activate scenario_env no_faults (request 42 ''/activate nope'') scenario_store
       = (CodeNotFound, scenario_store)
   \<and> activate scenario_env no_faults (request 42 ''/activate pon-abcd1234'') used_store
       = (CodeAlreadyUsed, used_store)
   \<and> fst (activate scenario_env no_faults (request 42 ''/activate pon-abcd1234'') scenario_store)
       = Activated
   \<and> fst (status scenario_env no_faults (request 42 ''/status'')
        (snd (activate scenario_env no_faults (request 42 ''/activate pon-abcd1234'') scenario_store)))
       = Status 1 10 10 (Some ''2025-01-15'')
   \<and> fst (activate scenario_env no_faults
        (request 42 (''/activate pon-abcd1234'' @ [CHR 0x0A])) scenario_store) = Activated
   \<and> fst (activate scenario_env no_faults
        (request 42 (''/activate '' @ [CHR 0x09] @ ''Pon-Abcd1234 now'')) scenario_store) = Activated"
proof -
  note t = activate_normalizes_and_rejects [where e = scenario_env and fails = no_faults
      and e' = scenario_env and c' = "request 42 ''/status''"]
  have 1: "code_arg scenario_env (''/activate'' @ '' '' @ ''pon-abcd1234'') = Some ''PON-ABCD1234''"
    using t [where cmd = "''/activate''" and raw = "''pon-abcd1234''", THEN conjunct1]
      t [where raw = "''pon-abcd1234''", THEN conjunct2, THEN conjunct1]
    by (simp add: js_on_ascii_scenario_env normalise_examples)
  have 2: "activate scenario_env no_faults (request 42 ''/activate'') scenario_store
       = (CodeMissing, scenario_store)"
    using t [where c = "request 42 ''/activate''" and s = scenario_store,
        THEN conjunct2, THEN conjunct2, THEN conjunct2, THEN conjunct1]
    by (simp add: request_def)
  have 3: "activate scenario_env no_faults (request 42 ''/activate '') scenario_store
       = (CodeMissing, scenario_store)"
    using t [where c = "request 42 ''/activate ''" and s = scenario_store,
        THEN conjunct2, THEN conjunct2, THEN conjunct2, THEN conjunct1]
    by (simp add: request_def code_arg_examples)
  have 4: "activate scenario_env no_faults (request 42 ''/activate nope'') scenario_store
       = (CodeNotFound, scenario_store)"
    using t [where c = "request 42 ''/activate nope''" and s = scenario_store
        and code = "''NOPE''",
        THEN conjunct2, THEN conjunct2, THEN conjunct2, THEN conjunct2, THEN conjunct1]
    by (simp add: request_def code_arg_examples no_faults_def scenario_store_def view_def)
  have 5: "activate scenario_env no_faults (request 42 ''/activate pon-abcd1234'') used_store
       = (CodeAlreadyUsed, used_store)"
    using t [where c = "request 42 ''/activate pon-abcd1234''" and s = used_store
        and code = "''PON-ABCD1234''"
        and r = "\<lparr>is_used = True, used_by_telegram_id = Some 5, used_at = Some 900\<rparr>",
        THEN conjunct2, THEN conjunct2, THEN conjunct2, THEN conjunct2, THEN conjunct2,
        THEN conjunct1]
    by (simp add: request_def code_arg_examples no_faults_def used_store_def view_def)
  have g: "fst (activate scenario_env no_faults (request 42 m) scenario_store) = Activated
     \<and> fst (status scenario_env no_faults (request 42 ''/status'')
        (snd (activate scenario_env no_faults (request 42 m) scenario_store)))
       = Status 1 10 10 (Some ''2025-01-15'')"
    if m: "code_arg scenario_env m = Some ''PON-ABCD1234''" for m
  proof -
    have hyp: "pending scenario_store = None
        \<and> code_arg scenario_env (message_text (request 42 m)) = Some ''PON-ABCD1234''
        \<and> ''PON-ABCD1234'' \<noteq> []
        \<and> access_codes (committed scenario_store) ''PON-ABCD1234''
           = Some \<lparr>is_used = False, used_by_telegram_id = None, used_at = None\<rparr>
        \<and> \<not> is_used \<lparr>is_used = False, used_by_telegram_id = None, used_at = None\<rparr>
        \<and> (\<forall>q. \<not> no_faults q)
        \<and> from_id (request 42 ''/status'') = from_id (request 42 m)"
      using m by (simp add: scenario_store_def request_def no_faults_def)
    note r = t [where c = "request 42 m" and s = scenario_store and code = "''PON-ABCD1234''"
        and r = "\<lparr>is_used = False, used_by_telegram_id = None, used_at = None\<rparr>",
        THEN conjunct2, THEN conjunct2, THEN conjunct2, THEN conjunct2, THEN conjunct2,
        THEN conjunct2, THEN mp, OF hyp]
    have u: "users (committed scenario_store) (from_id (request 42 m)) = None"
      by (simp add: scenario_store_def)
    have a: "fst (activate scenario_env no_faults (request 42 m) scenario_store) = Activated"
      using r [THEN conjunct1] by simp
    have b: "fst (status scenario_env no_faults (request 42 ''/status'')
        (snd (activate scenario_env no_faults (request 42 m) scenario_store)))
       = Status 1 10 10 (Some ''2025-01-15'')"
      using r [THEN conjunct2, THEN conjunct2] by (simp add: u scenario_env_sel)
    from a b show ?thesis
      by (rule conjI)
  qed
  note 6 = g [OF code_arg_examples(1)]
  note 7 = g [OF code_arg_examples(7), THEN conjunct1]
  note 8 = g [OF code_arg_examples(8), THEN conjunct1]
  from 1 2 3 4 5 6 7 8 show ?thesis
    by blast
qed

section \<open>Two redemptions of one code\<close>

text \<open>
  Claim C1 says that of any number of concurrent redemptions of one code at most one
  succeeds. One after the other that holds (\<open>activate_second_attempt\<close>). Interleaved it
  does not: in \<open>racing_redeems\<close> both invocations read the code as unused before either
  marks it, the \<^verbatim>\<open>UPDATE\<close> carries no condition on \<^verbatim>\<open>is_used\<close>, and both
  invocations reply "access code activated". Both users end with access, the code's row
  names the second user, and both transactions are committed.
\<close>

theorem concurrent_redeems_both_succeed:
  "map snd (fst racing_redeems) = [Finished Activated, Finished Activated]
   \<and> map_option has_access (users (committed (snd racing_redeems)) 1) = Some True
   \<and> map_option has_access (users (committed (snd racing_redeems)) 2) = Some True
   \<and> map_option used_by_telegram_id (access_codes (committed (snd racing_redeems)) ''PON-ABCD1234'')
       = Some (Some 2)
   \<and> pending (snd racing_redeems) = None"
  by (simp add: racing_redeems_def scenario_env_sel scenario_store_def request_def no_faults_def
      code_arg_examples view_def apply_write_def begin_txn_def commit_txn_def mark_code_used_def
      upsert_user_def)

end
